theory Spec2Isabelle
  imports Main "HOL-Library.Sublist" "HOL-Library.Multiset"
begin

section \<open>Strings of the host language\<close>

text \<open>
  JavaScript strings are modelled as \<^typ>\<open>string\<close> (a list of 8-bit characters), so
  \<open>toLowerCase\<close> folds the ASCII letters \<open>A\<close>..\<open>Z\<close> and leaves every other
  character alone. \<open>String.prototype.includes\<close> is the contiguous-substring test;
  the empty string is included in every string.
\<close>

definition toLowerChar :: "char \<Rightarrow> char" where
  "toLowerChar c =
     (if 65 \<le> (of_char c :: nat) \<and> (of_char c :: nat) \<le> 90
      then char_of ((of_char c :: nat) + 32) else c)"

definition toLowerCase :: "string \<Rightarrow> string" where
  "toLowerCase s = map toLowerChar s"

fun includes_str :: "string \<Rightarrow> string \<Rightarrow> bool" where
  "includes_str [] t = (t = [])"
| "includes_str (c # s) t = (prefix t (c # s) \<or> includes_str s t)"

text \<open>The template literal \<open>`${n}`\<close> of a non-negative integer: its decimal digits.\<close>

fun string_of_nat :: "nat \<Rightarrow> string" where
  "string_of_nat n =
     (if n < 10 then [char_of (48 + n)]
      else string_of_nat (n div 10) @ [char_of (48 + n mod 10)])"

declare string_of_nat.simps [simp del]

text \<open>\<open>a || b\<close> on strings: the empty string is falsy.\<close>

definition or_default :: "string \<Rightarrow> string \<Rightarrow> string" where
  "or_default a b = (if a = [] then b else a)"

section \<open>Records and the record generator (dataGenerator.js)\<close>

record avatar =
  initials :: string
  color :: string

record customer =
  cust_id :: nat
  name :: string
  phone :: string
  email :: string
  score :: nat
  lastMessageAt :: string
  addedBy :: string
  avatar :: avatar

definition firstNames :: "string list" where
  "firstNames =
    [''James'', ''Mary'', ''John'', ''Patricia'', ''Robert'', ''Jennifer'', ''Michael'', ''Linda'',
     ''William'', ''Barbara'', ''David'', ''Elizabeth'', ''Richard'', ''Susan'', ''Joseph'', ''Jessica'',
     ''Thomas'', ''Sarah'', ''Charles'', ''Karen'', ''Christopher'', ''Nancy'', ''Daniel'', ''Lisa'',
     ''Matthew'', ''Betty'', ''Anthony'', ''Margaret'', ''Mark'', ''Sandra'', ''Donald'', ''Ashley'',
     ''Steven'', ''Kimberly'', ''Paul'', ''Emily'', ''Andrew'', ''Donna'', ''Joshua'', ''Michelle'']"

definition lastNames :: "string list" where
  "lastNames =
    [''Smith'', ''Johnson'', ''Williams'', ''Brown'', ''Jones'', ''Garcia'', ''Miller'', ''Davis'',
     ''Rodriguez'', ''Martinez'', ''Hernandez'', ''Lopez'', ''Gonzalez'', ''Wilson'', ''Anderson'', ''Thomas'',
     ''Taylor'', ''Moore'', ''Jackson'', ''Martin'', ''Lee'', ''Perez'', ''Thompson'', ''White'',
     ''Harris'', ''Sanchez'', ''Clark'', ''Ramirez'', ''Lewis'', ''Robinson'', ''Walker'', ''Young'']"

definition domains :: "string list" where
  "domains = [''gmail.com'', ''yahoo.com'', ''hotmail.com'', ''outlook.com'', ''company.com'']"

definition avatarColors :: "string list" where
  "avatarColors = [''#FF6B6B'', ''#4ECDC4'', ''#45B7D1'', ''#FFA07A'', ''#98D8C8'', ''#F7DC6F'',
     ''#BB8FCE'', ''#85C1E2'']"

text \<open>
  \<open>Math.random\<close> and \<open>Date.now\<close> are the only inputs of the generator besides the
  identifier. One value of \<open>draws\<close> holds what one call of \<open>generateCustomer\<close> draws:
  each \<open>Math.floor(Math.random() * n)\<close> is a natural number that the model reduces
  modulo \<open>n\<close>, and the ISO string of the random date is taken as drawn.
\<close>

record draws =
  r_first :: nat
  r_last :: nat
  r_domain :: nat
  r_area :: nat
  r_prefix :: nat
  r_line :: nat
  r_score :: nat
  r_date :: string
  r_by_first :: nat
  r_by_last :: nat
  r_color :: nat

definition pick :: "string list \<Rightarrow> nat \<Rightarrow> string" where
  "pick tbl r = tbl ! (r mod length tbl)"

definition generatePhone :: "draws \<Rightarrow> string" where
  "generatePhone d =
     (let areaCode = r_area d mod 900 + 100;
          prefixPart = r_prefix d mod 900 + 100;
          lineNumber = r_line d mod 9000 + 1000
      in ''+1 ('' @ string_of_nat areaCode @ '') '' @ string_of_nat prefixPart @ ''-''
           @ string_of_nat lineNumber)"

definition generateAvatar :: "draws \<Rightarrow> string \<Rightarrow> string \<Rightarrow> avatar" where
  "generateAvatar d firstName lastName =
     \<lparr> initials = take 1 firstName @ take 1 lastName, color = pick avatarColors (r_color d) \<rparr>"

definition generateCustomer :: "(nat \<Rightarrow> draws) \<Rightarrow> nat \<Rightarrow> customer" where
  "generateCustomer rnd i =
     (let d = rnd i;
          firstName = pick firstNames (r_first d);
          lastName = pick lastNames (r_last d)
      in \<lparr> cust_id = i,
           name = firstName @ '' '' @ lastName,
           phone = generatePhone d,
           email = toLowerCase firstName @ ''.'' @ toLowerCase lastName @ string_of_nat i
                     @ ''@'' @ pick domains (r_domain d),
           score = r_score d mod 100 + 1,
           lastMessageAt = r_date d,
           addedBy = pick firstNames (r_by_first d) @ '' '' @ pick lastNames (r_by_last d),
           avatar = generateAvatar d firstName lastName \<rparr>)"

section \<open>Filter engine (App.jsx, filteredCustomers)\<close>

text \<open>
  The query is \<open>None\<close> when absent (\<open>null\<close>, \<open>undefined\<close>); \<open>!debouncedSearchTerm\<close>
  holds for an absent and for an empty query.
\<close>

definition falsy :: "string option \<Rightarrow> bool" where
  "falsy q = (case q of None \<Rightarrow> True | Some s \<Rightarrow> s = [])"

definition matches :: "string \<Rightarrow> customer \<Rightarrow> bool" where
  "matches searchLower c =
     (includes_str (toLowerCase (name c)) searchLower \<or>
      includes_str (toLowerCase (email c)) searchLower \<or>
      includes_str (toLowerCase (phone c)) searchLower)"

definition filteredCustomers :: "customer list \<Rightarrow> string option \<Rightarrow> customer list" where
  "filteredCustomers customers debouncedSearchTerm =
     (case debouncedSearchTerm of
        None \<Rightarrow> customers
      | Some term \<Rightarrow>
          if term = [] then customers
          else let searchLower = toLowerCase term
               in filter (matches searchLower) customers)"

text \<open>
  The filter as section 4.5 of the specification words it: the phone number is matched
  on the untransformed display string.
\<close>

definition spec_matches :: "string \<Rightarrow> customer \<Rightarrow> bool" where
  "spec_matches q c =
     (includes_str (toLowerCase (name c)) (toLowerCase q) \<or>
      includes_str (toLowerCase (email c)) (toLowerCase q) \<or>
      includes_str (phone c) (toLowerCase q))"

definition spec_filter :: "customer list \<Rightarrow> string \<Rightarrow> customer list" where
  "spec_filter W q = filter (spec_matches q) W"

text \<open>
  Arrays are objects: the store maps an address to the array it holds, and \<open>next_free\<close>
  is the next unused address. \<open>Array.prototype.filter\<close> allocates its result; the early
  return hands back the address it was given.
\<close>

record heap =
  arrays :: "nat \<Rightarrow> customer list"
  next_free :: nat

definition filteredCustomers_ref :: "heap \<Rightarrow> nat \<Rightarrow> string option \<Rightarrow> heap \<times> nat" where
  "filteredCustomers_ref h customers debouncedSearchTerm =
     (if falsy debouncedSearchTerm then (h, customers)
      else let result = filteredCustomers (arrays h customers) debouncedSearchTerm
           in (h\<lparr> arrays := (arrays h)(next_free h := result), next_free := Suc (next_free h) \<rparr>,
               next_free h))"

section \<open>Sort engine (App.jsx, sortedCustomers)\<close>

text \<open>
  A comparison value is a number, \<open>NaN\<close> (the time of an invalid date) or a string.
  \<open>customer[column]\<close> reads an own property of the record; a column that names no
  property gives \<open>undefined\<close>.
\<close>

datatype compareValue = Num int | NaN | Str string

datatype jsval = VNumber nat | VString string | VObject | VUndefined

record sortConfig =
  column :: string
  direction :: string

definition getProp :: "customer \<Rightarrow> string \<Rightarrow> jsval" where
  "getProp c col =
     (if col = ''id'' then VNumber (cust_id c)
      else if col = ''name'' then VString (name c)
      else if col = ''phone'' then VString (phone c)
      else if col = ''email'' then VString (email c)
      else if col = ''score'' then VNumber (score c)
      else if col = ''lastMessageAt'' then VString (lastMessageAt c)
      else if col = ''addedBy'' then VString (addedBy c)
      else if col = ''avatar'' then VObject
      else VUndefined)"

fun toString :: "jsval \<Rightarrow> string" where
  "toString (VNumber n) = string_of_nat n"
| "toString (VString s) = s"
| "toString VObject = ''[object Object]''"
| "toString VUndefined = ''undefined''"

text \<open>
  \<open>Number(v)\<close> is applied to the columns \<open>id\<close> and \<open>score\<close> only, which hold numbers.
  \<open>new Date(s).getTime()\<close> is the host's date parser, a parameter of the model: \<open>None\<close>
  stands for an invalid date.
\<close>

fun toNumber :: "jsval \<Rightarrow> compareValue" where
  "toNumber (VNumber n) = Num (int n)"
| "toNumber _ = NaN"

definition getTime :: "(string \<Rightarrow> int option) \<Rightarrow> jsval \<Rightarrow> compareValue" where
  "getTime parse v =
     (case v of VString s \<Rightarrow> (case parse s of None \<Rightarrow> NaN | Some t \<Rightarrow> Num t) | _ \<Rightarrow> NaN)"

definition compareValueOf :: "(string \<Rightarrow> int option) \<Rightarrow> string \<Rightarrow> customer \<Rightarrow> compareValue" where
  "compareValueOf parse col c =
     (if col = ''score'' \<or> col = ''id'' then toNumber (getProp c col)
      else if col = ''lastMessageAt'' then getTime parse (getProp c col)
      else Str (toLowerCase (toString (getProp c col))))"

text \<open>
  \<open><\<close> on two strings compares them character by character, a proper prefix being
  smaller. Every comparison with \<open>NaN\<close> is false. One pass of the decoration gives
  values of one kind, so a number never meets a string.
\<close>

fun str_lt :: "string \<Rightarrow> string \<Rightarrow> bool" where
  "str_lt [] [] = False"
| "str_lt [] (y # ys) = True"
| "str_lt (x # xs) [] = False"
| "str_lt (x # xs) (y # ys) =
     ((of_char x :: nat) < of_char y \<or> (x = y \<and> str_lt xs ys))"

fun js_lt :: "compareValue \<Rightarrow> compareValue \<Rightarrow> bool" where
  "js_lt (Num a) (Num b) = (a < b)"
| "js_lt (Str s) (Str t) = str_lt s t"
| "js_lt _ _ = False"

definition comparator :: "string \<Rightarrow> compareValue \<Rightarrow> compareValue \<Rightarrow> int" where
  "comparator dir aVal bVal =
     (if js_lt aVal bVal then (if dir = ''asc'' then - 1 else 1)
      else if js_lt bVal aVal then (if dir = ''asc'' then 1 else - 1)
      else 0)"

text \<open>
  \<open>Array.prototype.sort\<close> is stable (ECMAScript 2019): with a consistent comparator
  its result is the one a stable insertion sort gives, which is how it is modelled. Each
  element is put in front of the first element of the sorted rest that it does not
  exceed.
\<close>

fun insert_sorted :: "('a \<Rightarrow> 'a \<Rightarrow> int) \<Rightarrow> 'a \<Rightarrow> 'a list \<Rightarrow> 'a list" where
  "insert_sorted cmp x [] = [x]"
| "insert_sorted cmp x (y # ys) =
     (if cmp x y \<le> 0 then x # y # ys else y # insert_sorted cmp x ys)"

definition array_sort :: "('a \<Rightarrow> 'a \<Rightarrow> int) \<Rightarrow> 'a list \<Rightarrow> 'a list" where
  "array_sort cmp xs = foldr (insert_sorted cmp) xs []"

definition sortedCustomers ::
  "(string \<Rightarrow> int option) \<Rightarrow> sortConfig \<Rightarrow> customer list \<Rightarrow> customer list" where
  "sortedCustomers parse cfg filtered =
     (let decorated = map (\<lambda>customer. (customer, compareValueOf parse (column cfg) customer)) filtered;
          sorted = array_sort (\<lambda>a b. comparator (direction cfg) (snd a) (snd b)) decorated
      in map fst sorted)"

section \<open>Batch producers (dataGenerator.js)\<close>

text \<open>
  A callback is a function on the state of its owner; \<open>None\<close> is a callback that was
  not passed (\<open>if (onProgress) onProgress(...)\<close>).
\<close>

definition call1 :: "('a \<Rightarrow> 'u \<Rightarrow> 'u) option \<Rightarrow> 'a \<Rightarrow> 'u \<Rightarrow> 'u" where
  "call1 cb a u = (case cb of None \<Rightarrow> u | Some f \<Rightarrow> f a u)"

definition call2 :: "('a \<Rightarrow> 'b \<Rightarrow> 'u \<Rightarrow> 'u) option \<Rightarrow> 'a \<Rightarrow> 'b \<Rightarrow> 'u \<Rightarrow> 'u" where
  "call2 cb a b u = (case cb of None \<Rightarrow> u | Some f \<Rightarrow> f a b u)"

subsection \<open>In-memory generation, one record at a time (first generateCustomersInMemory)\<close>

text \<open>
  \<open>for (i = 1; i <= count; i++)\<close>: the record is pushed, and progress is reported when
  \<open>i\<close> is a multiple of \<open>BATCH_SIZE = 10000\<close>.
\<close>

definition generate_step ::
  "(nat \<Rightarrow> draws) \<Rightarrow> nat \<Rightarrow> (nat \<Rightarrow> nat \<Rightarrow> 'u \<Rightarrow> 'u) option \<Rightarrow> nat
     \<Rightarrow> customer list \<times> 'u \<Rightarrow> customer list \<times> 'u" where
  "generate_step rnd cnt onProgress i acc =
     (case acc of (customers, u) \<Rightarrow>
        (customers @ [generateCustomer rnd i],
         if i mod 10000 = 0 then call2 onProgress i cnt u else u))"

definition generateCustomersInMemory_v1 ::
  "(nat \<Rightarrow> draws) \<Rightarrow> nat \<Rightarrow> (nat \<Rightarrow> nat \<Rightarrow> 'u \<Rightarrow> 'u) option \<Rightarrow> 'u \<Rightarrow> customer list \<times> 'u" where
  "generateCustomersInMemory_v1 rnd cnt onProgress u =
     fold (generate_step rnd cnt onProgress) [1..<Suc cnt] ([], u)"

subsection \<open>In-memory generation in batches (second generateCustomersInMemory)\<close>

text \<open>
  \<open>for (batchStart = 1; batchStart <= count; batchStart += BATCH_SIZE)\<close>. The source
  fixes \<open>BATCH_SIZE = 5000\<close>; the loop is written for any batch size \<open>B\<close>, and with
  \<open>B = 0\<close> it does not end, so its result is optional.
\<close>

partial_function (option) generate_batches ::
  "(nat \<Rightarrow> draws) \<Rightarrow> nat \<Rightarrow> nat \<Rightarrow> (nat \<Rightarrow> nat \<Rightarrow> 'u \<Rightarrow> 'u) option
     \<Rightarrow> (customer list \<Rightarrow> 'u \<Rightarrow> 'u) option \<Rightarrow> nat \<Rightarrow> customer list \<times> 'u
     \<Rightarrow> (customer list \<times> 'u) option" where
  "generate_batches rnd B cnt onProgress onBatchComplete batchStart acc =
     (if batchStart \<le> cnt then
        (let batchEnd = min (batchStart + B - 1) cnt;
             batchCustomers = map (generateCustomer rnd) [batchStart..<Suc batchEnd]
         in generate_batches rnd B cnt onProgress onBatchComplete (batchStart + B)
              (fst acc @ batchCustomers,
               call1 onBatchComplete batchCustomers (call2 onProgress batchEnd cnt (snd acc))))
      else Some acc)"

definition generateCustomersInMemory ::
  "(nat \<Rightarrow> draws) \<Rightarrow> nat \<Rightarrow> (nat \<Rightarrow> nat \<Rightarrow> 'u \<Rightarrow> 'u) option
     \<Rightarrow> (customer list \<Rightarrow> 'u \<Rightarrow> 'u) option \<Rightarrow> 'u \<Rightarrow> (customer list \<times> 'u) option" where
  "generateCustomersInMemory rnd cnt onProgress onBatchComplete u =
     generate_batches rnd 5000 cnt onProgress onBatchComplete 1 ([], u)"

subsection \<open>Population of the persistent store (populateDatabase)\<close>

text \<open>
  The object store is the list of the records it holds. The environment decides how each
  write transaction ends: it commits, a request fails (\<open>onerror\<close>, with the message of
  the error) or the transaction is aborted (\<open>onabort\<close>).
\<close>

datatype txn_outcome = Commit | TxnError string | TxnAbort

definition write_batch ::
  "txn_outcome \<Rightarrow> customer list \<Rightarrow> customer list \<Rightarrow> string + customer list" where
  "write_batch outcome store batchCustomers =
     (case outcome of
        Commit \<Rightarrow> Inr (store @ batchCustomers)
      | TxnError m \<Rightarrow> Inl (''Transaction error: '' @ or_default m ''Unknown error'')
      | TxnAbort \<Rightarrow> Inl ''Transaction aborted'')"

text \<open>
  \<open>for (batch = 0; batch < TOTAL_RECORDS / BATCH_SIZE; batch++)\<close>, the division being
  that of real numbers: \<open>batch < T / B\<close> is \<open>batch * B < T\<close>, also for \<open>B = 0\<close>
  (\<open>T / 0\<close> is infinite for \<open>T > 0\<close>, and \<open>0 / 0\<close> is \<open>NaN\<close>). Every batch has
  \<open>BATCH_SIZE\<close> records. The state is the store, the counter \<open>processed\<close> and the state
  of the callbacks' owner; a failed transaction ends the loop with its error. The
  source fixes \<open>TOTAL_RECORDS = 1000000\<close> and \<open>BATCH_SIZE\<close> (10000 in the first
  populateDatabase, which has no batch callback, 5000 in the second).
\<close>

partial_function (option) populate_batches ::
  "(nat \<Rightarrow> draws) \<Rightarrow> (nat \<Rightarrow> txn_outcome) \<Rightarrow> nat \<Rightarrow> nat \<Rightarrow> (nat \<Rightarrow> nat \<Rightarrow> 'u \<Rightarrow> 'u) option
     \<Rightarrow> (customer list \<Rightarrow> 'u \<Rightarrow> 'u) option \<Rightarrow> nat \<Rightarrow> customer list \<times> nat \<times> 'u
     \<Rightarrow> ((string + unit) \<times> customer list \<times> nat \<times> 'u) option" where
  "populate_batches rnd txn B T onProgress onBatchComplete batch st =
     (if batch * B < T then
        (let batchCustomers = map (\<lambda>i. generateCustomer rnd (batch * B + i + 1)) [0..<B]
         in case write_batch (txn batch) (fst st) batchCustomers of
              Inl e \<Rightarrow> Some (Inl e, st)
            | Inr store' \<Rightarrow>
                populate_batches rnd txn B T onProgress onBatchComplete (Suc batch)
                  (store', fst (snd st) + B,
                   call1 onBatchComplete batchCustomers
                     (call2 onProgress (fst (snd st) + B) T (snd (snd st)))))
      else Some (Inr (), st))"

definition populateDatabase_v1 ::
  "(nat \<Rightarrow> draws) \<Rightarrow> (nat \<Rightarrow> txn_outcome) \<Rightarrow> customer list \<Rightarrow> (nat \<Rightarrow> nat \<Rightarrow> 'u \<Rightarrow> 'u) option \<Rightarrow> 'u
     \<Rightarrow> ((string + unit) \<times> customer list \<times> nat \<times> 'u) option" where
  "populateDatabase_v1 rnd txn store onProgress u =
     populate_batches rnd txn 10000 1000000 onProgress None 0 (store, 0, u)"


subsection \<open>Observing the callbacks\<close>

text \<open>The two callbacks of an observer that writes down what it is told, in order.\<close>

datatype event = Progress nat nat | BatchReady "customer list"

definition log_progress :: "(nat \<Rightarrow> nat \<Rightarrow> event list \<Rightarrow> event list) option" where
  "log_progress = Some (\<lambda>processed tot tr. tr @ [Progress processed tot])"

definition log_batch :: "(customer list \<Rightarrow> event list \<Rightarrow> event list) option" where
  "log_batch = Some (\<lambda>batchCustomers tr. tr @ [BatchReady batchCustomers])"


fun reported :: "event list \<Rightarrow> (nat \<times> nat) list" where
  "reported [] = []"
| "reported (Progress p t # tr) = (p, t) # reported tr"
| "reported (BatchReady b # tr) = reported tr"

text \<open>
  \<open>Math.floor((processed / total) * 100)\<close>, computed on exact numbers (the source
  computes it on doubles, which agree with it when \<open>processed = total\<close>).
\<close>

definition percent :: "nat \<Rightarrow> nat \<Rightarrow> nat" where
  "percent processed tot = (processed * 100) div tot"

section \<open>Progressive load orchestrator (App.jsx, initData)\<close>

text \<open>
  The environment of one session: the capability probe, the contents of the object
  store when the session starts, how the requests to the store end, and whether a call
  of the in-memory generator is interrupted by an exception of the host (the \<open>k\<close>-th
  call, counted from 0). A failed request ends in \<open>onerror\<close> with the message of its
  error, or the call that makes it throws.
\<close>

datatype database = CustomersDB

datatype failure = OnError string | Thrown string

record env =
  probe :: bool
  storeAtOpen :: "customer list"
  openFails :: "failure option"
  countFails :: "failure option"
  writeOutcome :: "nat \<Rightarrow> txn_outcome"
  getAllFails :: "failure option"
  generationThrows :: "nat \<Rightarrow> string option"
  populateDraws :: "nat \<Rightarrow> draws"
  memoryDraws :: "nat \<Rightarrow> nat \<Rightarrow> draws"

definition failure_message :: "string \<Rightarrow> failure \<Rightarrow> string" where
  "failure_message label f =
     (case f of OnError m \<Rightarrow> label @ or_default m ''Unknown error'' | Thrown m \<Rightarrow> m)"

text \<open>
  The state of the component (\<open>useState\<close>), the object store, and how often each
  operation has been called.
\<close>

record session =
  customers :: "customer list"
  loading :: bool
  progress :: nat
  error :: "string option"
  useMemoryStorage :: bool
  db :: "database option"
  idb :: "customer list"
  opens :: nat
  checks :: nat
  populates :: nat
  loads :: nat
  generations :: nat

definition initial_session :: "env \<Rightarrow> session" where
  "initial_session e =
     \<lparr> customers = [], loading = True, progress = 0, error = None, useMemoryStorage = False,
       db = None, idb = storeAtOpen e, opens = 0, checks = 0, populates = 0, loads = 0,
       generations = 0 \<rparr>"

definition isIndexedDBAvailable :: "env \<Rightarrow> bool" where
  "isIndexedDBAvailable e = probe e"

definition initializeDatabase :: "env \<Rightarrow> session \<Rightarrow> (string + database) \<times> session" where
  "initializeDatabase e s =
     (let s' = s\<lparr> opens := Suc (opens s) \<rparr>
      in if \<not> isIndexedDBAvailable e then
           (Inl ''IndexedDB is not available. Please use a regular browser window (not private/incognito mode).'', s')
         else case openFails e of
                Some f \<Rightarrow> (Inl (failure_message ''IndexedDB error: '' f), s')
              | None \<Rightarrow> (Inr CustomersDB, s'))"

definition isDatabasePopulated :: "env \<Rightarrow> session \<Rightarrow> (string + bool) \<times> session" where
  "isDatabasePopulated e s =
     (let s' = s\<lparr> checks := Suc (checks s) \<rparr>
      in case countFails e of
           Some f \<Rightarrow> (Inl (failure_message ''Count error: '' f), s')
         | None \<Rightarrow> (Inr (1000000 \<le> length (idb s)), s'))"

definition setProgress :: "(nat \<Rightarrow> nat \<Rightarrow> session \<Rightarrow> session) option" where
  "setProgress = Some (\<lambda>processed tot s. s\<lparr> progress := percent processed tot \<rparr>)"

definition populate :: "env \<Rightarrow> session \<Rightarrow> ((string + unit) \<times> session) option" where
  "populate e s =
     (case populateDatabase_v1 (populateDraws e) (writeOutcome e) (idb s) setProgress
             (s\<lparr> populates := Suc (populates s) \<rparr>) of
        None \<Rightarrow> None
      | Some (r, store', processed, s') \<Rightarrow> Some (r, s'\<lparr> idb := store' \<rparr>))"

text \<open>\<open>getAll\<close> gives the records of the store in the order of their keys.\<close>

definition loadCustomers :: "env \<Rightarrow> database option \<Rightarrow> session \<Rightarrow> (string + unit) \<times> session" where
  "loadCustomers e database s =
     (let s' = s\<lparr> loads := Suc (loads s) \<rparr>
      in case database of
           None \<Rightarrow> (Inl ''Database is null'', s')
         | Some d \<Rightarrow>
             (case getAllFails e of
                Some f \<Rightarrow> (Inl (failure_message ''Load error: '' f), s')
              | None \<Rightarrow> (Inr (), s'\<lparr> customers := sort_key cust_id (idb s') \<rparr>)))"

definition generateInMemory :: "env \<Rightarrow> session \<Rightarrow> (string + customer list) \<times> session" where
  "generateInMemory e s =
     (let k = generations s; s' = s\<lparr> generations := Suc k \<rparr>
      in case generationThrows e k of
           Some m \<Rightarrow> (Inl m, s')
         | None \<Rightarrow>
             (case generateCustomersInMemory_v1 (memoryDraws e k) 1000000 setProgress s' of
                (memoryCustomers, s'') \<Rightarrow> (Inr memoryCustomers, s'')))"

text \<open>The body of the \<open>try\<close> block: \<open>Inl\<close> is the exception that leaves it.\<close>

definition initData_try :: "env \<Rightarrow> session \<Rightarrow> ((string + unit) \<times> session) option" where
  "initData_try e s0 =
     (let s1 = s0\<lparr> error := None \<rparr>
      in if \<not> isIndexedDBAvailable e then
           (let s2 = s1\<lparr> useMemoryStorage := True \<rparr>
            in case generateInMemory e s2 of
                 (Inl err, s3) \<Rightarrow> Some (Inl err, s3)
               | (Inr memoryCustomers, s3) \<Rightarrow>
                   Some (Inr (), s3\<lparr> customers := memoryCustomers, loading := False \<rparr>))
         else
           (case initializeDatabase e s1 of
              (Inl err, s2) \<Rightarrow> Some (Inl err, s2)
            | (Inr database, s2) \<Rightarrow>
                (case isDatabasePopulated e (s2\<lparr> db := Some database \<rparr>) of
                   (Inl err, s3) \<Rightarrow> Some (Inl err, s3)
                 | (Inr isPopulated, s3) \<Rightarrow>
                     (case (if \<not> isPopulated then populate e s3 else Some (Inr (), s3)) of
                        None \<Rightarrow> None
                      | Some (Inl err, s4) \<Rightarrow> Some (Inl err, s4)
                      | Some (Inr _, s4) \<Rightarrow>
                          (case loadCustomers e (Some database) s4 of
                             (Inl err, s5) \<Rightarrow> Some (Inl err, s5)
                           | (Inr _, s5) \<Rightarrow> Some (Inr (), s5\<lparr> loading := False \<rparr>))))))"

text \<open>The \<open>catch\<close> block: the fallback to memory, with its own \<open>try\<close> and \<open>catch\<close>.\<close>

definition initData_catch :: "env \<Rightarrow> string \<Rightarrow> session \<Rightarrow> session" where
  "initData_catch e err s0 =
     (let s1 = s0\<lparr> error := Some (or_default err ''Failed to initialize database'') \<rparr>;
          s2 = s1\<lparr> useMemoryStorage := True \<rparr>;
          s4 = (case generateInMemory e s2 of
                  (Inr memoryCustomers, s3) \<Rightarrow> s3\<lparr> customers := memoryCustomers, error := None \<rparr>
                | (Inl memError, s3) \<Rightarrow> s3\<lparr> error := Some ''Failed to generate customer data'' \<rparr>)
      in s4\<lparr> loading := False \<rparr>)"

definition initData :: "env \<Rightarrow> session \<Rightarrow> session option" where
  "initData e s0 =
     (case initData_try e s0 of
        None \<Rightarrow> None
      | Some (Inl err, s) \<Rightarrow> Some (initData_catch e err s)
      | Some (Inr _, s) \<Rightarrow> Some s)"

text \<open>What the component renders: the loading screen, the empty-data screen or the list.\<close>

datatype screen = LoadingScreen "string option" | NoDataScreen | CustomerList

definition render :: "session \<Rightarrow> screen" where
  "render s =
     (if loading s then LoadingScreen (error s)
      else if length (customers s) = 0 then NoDataScreen
      else CustomerList)"

text \<open>
  A step of the persistent path fails: the open, the population check, a write
  transaction of one of the 100 batches of a store that is not populated, or the
  retrieval of the whole collection.
\<close>

definition persistent_step_fails :: "env \<Rightarrow> bool" where
  "persistent_step_fails e =
     (openFails e \<noteq> None \<or> countFails e \<noteq> None \<or>
      (length (storeAtOpen e) < 1000000 \<and> (\<exists>k<100. writeOutcome e k \<noteq> Commit)) \<or>
      getAllFails e \<noteq> None)"

section \<open>Closed forms of the loops\<close>

text \<open>
  The windows \<open>(batchStart, batchEnd)\<close> that the batched generation visits, and what one
  round of its loop does with a window.
\<close>

function windows :: "nat \<Rightarrow> nat \<Rightarrow> nat \<Rightarrow> (nat \<times> nat) list" where
  "windows B cnt batchStart =
     (if 0 < B \<and> batchStart \<le> cnt
      then (batchStart, min (batchStart + B - 1) cnt) # windows B cnt (batchStart + B)
      else [])"
  by pat_completeness auto
termination
  by (relation "measure (\<lambda>(B, cnt, batchStart). Suc cnt - batchStart)") auto

declare windows.simps [simp del]

definition window_step ::
  "(nat \<Rightarrow> draws) \<Rightarrow> nat \<Rightarrow> (nat \<Rightarrow> nat \<Rightarrow> 'u \<Rightarrow> 'u) option \<Rightarrow> (customer list \<Rightarrow> 'u \<Rightarrow> 'u) option
     \<Rightarrow> nat \<times> nat \<Rightarrow> customer list \<times> 'u \<Rightarrow> customer list \<times> 'u" where
  "window_step rnd cnt onProgress onBatchComplete w acc =
     (let batchCustomers = map (generateCustomer rnd) [fst w..<Suc (snd w)]
      in (fst acc @ batchCustomers,
          call1 onBatchComplete batchCustomers (call2 onProgress (snd w) cnt (snd acc))))"

text \<open>The records of one batch of the population, and \<open>n\<close> rounds of its loop.\<close>

definition batch_records :: "(nat \<Rightarrow> draws) \<Rightarrow> nat \<Rightarrow> nat \<Rightarrow> customer list" where
  "batch_records rnd B batch = map (\<lambda>i. generateCustomer rnd (batch * B + i + 1)) [0..<B]"

fun populate_run ::
  "(nat \<Rightarrow> draws) \<Rightarrow> (nat \<Rightarrow> txn_outcome) \<Rightarrow> nat \<Rightarrow> nat \<Rightarrow> (nat \<Rightarrow> nat \<Rightarrow> 'u \<Rightarrow> 'u) option
     \<Rightarrow> (customer list \<Rightarrow> 'u \<Rightarrow> 'u) option \<Rightarrow> nat \<Rightarrow> nat \<Rightarrow> customer list \<times> nat \<times> 'u
     \<Rightarrow> (string + unit) \<times> customer list \<times> nat \<times> 'u" where
  "populate_run rnd txn B T onProgress onBatchComplete 0 batch st = (Inr (), st)"
| "populate_run rnd txn B T onProgress onBatchComplete (Suc n) batch st =
     (case write_batch (txn batch) (fst st) (batch_records rnd B batch) of
        Inl e \<Rightarrow> (Inl e, st)
      | Inr store' \<Rightarrow>
          populate_run rnd txn B T onProgress onBatchComplete n (Suc batch)
            (store', fst (snd st) + B,
             call1 onBatchComplete (batch_records rnd B batch)
               (call2 onProgress (fst (snd st) + B) T (snd (snd st)))))"

text \<open>
  What an observer of a whole run has written down: of the batched generation with
  batch size \<open>B\<close>, and of the population of a store with batch size \<open>B\<close> and total
  \<open>T\<close>. \<open>None\<close> is a run that does not end.
\<close>

definition generate_trace :: "(nat \<Rightarrow> draws) \<Rightarrow> nat \<Rightarrow> nat \<Rightarrow> event list option" where
  "generate_trace rnd B cnt =
     map_option snd (generate_batches rnd B cnt log_progress log_batch 1 ([], []))"




section \<open>Concrete inputs\<close>

definition vanity_customer :: customer where
  "vanity_customer =
     \<lparr> cust_id = 1, name = ''Mary Smith'', phone = ''+1 (800) CALL-NOW'',
       email = ''mary.smith1@gmail.com'', score = 50,
       lastMessageAt = ''2024-01-01T00:00:00.000Z'', addedBy = ''John Brown'',
       avatar = \<lparr> initials = ''MS'', color = ''#FF6B6B'' \<rparr> \<rparr>"

definition plain_customer :: customer where
  "plain_customer =
     \<lparr> cust_id = 2, name = ''John Smith'', phone = ''+1 (555) 123-4567'',
       email = ''john.smith2@yahoo.com'', score = 7,
       lastMessageAt = ''2024-02-01T00:00:00.000Z'', addedBy = ''Mary Brown'',
       avatar = \<lparr> initials = ''JS'', color = ''#4ECDC4'' \<rparr> \<rparr>"

definition fixed_draws :: "nat \<Rightarrow> draws" where
  "fixed_draws i =
     \<lparr> r_first = 0, r_last = 0, r_domain = 0, r_area = 0, r_prefix = 0, r_line = 0,
       r_score = 0, r_date = ''2024-01-01T00:00:00.000Z'', r_by_first = 0, r_by_last = 0,
       r_color = 0 \<rparr>"

definition all_commit :: "nat \<Rightarrow> txn_outcome" where
  "all_commit k = Commit"

definition no_throw :: "nat \<Rightarrow> string option" where
  "no_throw k = None"

definition same_draws :: "nat \<Rightarrow> nat \<Rightarrow> draws" where
  "same_draws k = fixed_draws"

definition full_store :: "customer list" where
  "full_store = replicate 1000000 plain_customer"

definition quiet_env :: env where
  "quiet_env =
     \<lparr> probe = True, storeAtOpen = [], openFails = None, countFails = None,
       writeOutcome = all_commit, getAllFails = None, generationThrows = no_throw,
       populateDraws = fixed_draws, memoryDraws = same_draws \<rparr>"

definition no_storage_env :: env where
  "no_storage_env = quiet_env\<lparr> probe := False \<rparr>"

definition populated_env :: env where
  "populated_env = quiet_env\<lparr> storeAtOpen := full_store \<rparr>"

definition locked_env :: env where
  "locked_env = quiet_env\<lparr> openFails := Some (OnError ''The database is locked'') \<rparr>"

section \<open>Auxiliary lemmas\<close>

lemma toLowerChar_idem: "toLowerChar (toLowerChar c) = toLowerChar c"
  by (simp add: toLowerChar_def)

lemma toLowerCase_idem: "toLowerCase (toLowerCase s) = toLowerCase s"
  by (simp add: toLowerCase_def toLowerChar_idem)

lemma toLowerCase_Nil_iff: "toLowerCase s = [] \<longleftrightarrow> s = []"
  by (simp add: toLowerCase_def)

lemma includes_str_sublist: "includes_str s t \<longleftrightarrow> sublist t s"
  by (induction s) (auto simp: sublist_Cons_right)

lemma string_of_nat_lower: "toLowerCase (string_of_nat n) = string_of_nat n"
proof (induction n rule: string_of_nat.induct)
  case (1 n)
  have d: "\<And>k::nat. k < 10 \<Longrightarrow> toLowerChar (char_of (48 + k)) = char_of (48 + k)"
    by (simp add: toLowerChar_def)
  show ?case
  proof (cases "n < 10")
    case True
    then show ?thesis by (subst (1 2) string_of_nat.simps) (simp add: toLowerCase_def d)
  next
    case False
    with 1 have "toLowerCase (string_of_nat (n div 10)) = string_of_nat (n div 10)" by simp
    with False show ?thesis
      by (subst (1 2) string_of_nat.simps) (simp add: toLowerCase_def d)
  qed
qed

lemma phone_generated_lower:
  "toLowerCase (phone (generateCustomer rnd i)) = phone (generateCustomer rnd i)"
  using string_of_nat_lower
  by (simp add: generateCustomer_def Let_def generatePhone_def toLowerCase_def toLowerChar_def)












lemma array_sort_sorted_wrt:
  "sorted_wrt (\<lambda>a b. cmp a b \<le> 0) xs \<Longrightarrow> array_sort cmp xs = xs"
proof (induction xs)
  case Nil
  show ?case by (simp add: array_sort_def)
next
  case (Cons x xs)
  then have "array_sort cmp xs = xs" by simp
  then have "array_sort cmp (x # xs) = insert_sorted cmp x xs" by (simp add: array_sort_def)
  also have "\<dots> = x # xs" using Cons.prems by (cases xs) auto
  finally show ?case .
qed

lemma fold_generate_step_fst:
  "fst (fold (generate_step rnd cnt onProgress) is (cs, u)) = cs @ map (generateCustomer rnd) is"
  by (induction "is" arbitrary: cs u) (auto simp: generate_step_def)

lemma generateCustomersInMemory_v1_fst:
  "fst (generateCustomersInMemory_v1 rnd N onProgress u) = map (generateCustomer rnd) [1..<Suc N]"
  by (simp add: generateCustomersInMemory_v1_def fold_generate_step_fst)

lemma cust_id_generateCustomer: "cust_id (generateCustomer rnd i) = i"
  by (simp add: generateCustomer_def Let_def)

lemma sort_by_id_generated:
  "sortedCustomers parse \<lparr> column = ''id'', direction = ''asc'' \<rparr> (map (generateCustomer rnd) [a..<b])
     = map (generateCustomer rnd) [a..<b]"
proof -
  let ?dec = "map (\<lambda>c. (c, compareValueOf parse ''id'' c)) (map (generateCustomer rnd) [a..<b])"
  have "sorted_wrt (\<lambda>i j. i < j) [a..<b]" by (rule sorted_wrt_upt)
  then have "sorted_wrt (\<lambda>i j. comparator ''asc'' (compareValueOf parse ''id'' (generateCustomer rnd i))
                (compareValueOf parse ''id'' (generateCustomer rnd j)) \<le> 0) [a..<b]"
    by (rule sorted_wrt_mono_rel [rotated])
       (simp add: comparator_def compareValueOf_def getProp_def cust_id_generateCustomer)
  then have "sorted_wrt (\<lambda>p q. comparator ''asc'' (snd p) (snd q) \<le> 0) ?dec"
    by (simp add: sorted_wrt_map)
  then have "array_sort (\<lambda>p q. comparator ''asc'' (snd p) (snd q)) ?dec = ?dec"
    by (rule array_sort_sorted_wrt)
  then show ?thesis by (simp add: sortedCustomers_def Let_def comp_def)
qed

lemma generate_batches_step:
  "batchStart \<le> cnt \<Longrightarrow>
     generate_batches rnd B cnt onP onB batchStart acc =
       generate_batches rnd B cnt onP onB (batchStart + B)
         (window_step rnd cnt onP onB (batchStart, min (batchStart + B - 1) cnt) acc)"
  by (subst generate_batches.simps) (simp add: window_step_def Let_def del: upt_Suc)

lemma generate_batches_stop:
  "\<not> batchStart \<le> cnt \<Longrightarrow> generate_batches rnd B cnt onP onB batchStart acc = Some acc"
  by (subst generate_batches.simps) simp

lemma generate_batches_windows:
  "0 < B \<Longrightarrow> generate_batches rnd B cnt onP onB batchStart acc =
     Some (fold (window_step rnd cnt onP onB) (windows B cnt batchStart) acc)"
proof (induction B cnt batchStart arbitrary: acc rule: windows.induct)
  case (1 B cnt batchStart)
  show ?case
  proof (cases "batchStart \<le> cnt")
    case True
    have w: "windows B cnt batchStart =
        (batchStart, min (batchStart + B - 1) cnt) # windows B cnt (batchStart + B)"
      using True \<open>0 < B\<close> by (subst windows.simps) simp
    show ?thesis
      using True 1 by (simp only: generate_batches_step w fold_Cons comp_def)
  next
    case False
    then have "windows B cnt batchStart = []" by (subst windows.simps) simp
    with False show ?thesis by (simp add: generate_batches_stop)
  qed
qed

lemma windows_concat:
  "0 < B \<Longrightarrow> concat (map (\<lambda>w. [fst w..<Suc (snd w)]) (windows B cnt batchStart)) = [batchStart..<Suc cnt]"
proof (induction B cnt batchStart rule: windows.induct)
  case (1 B cnt batchStart)
  show ?case
  proof (cases "batchStart \<le> cnt")
    case False
    then have "windows B cnt batchStart = []" by (subst windows.simps) simp
    with False show ?thesis by simp
  next
    case True
    note le = this
    have w: "windows B cnt batchStart =
        (batchStart, min (batchStart + B - 1) cnt) # windows B cnt (batchStart + B)"
      using True \<open>0 < B\<close> by (subst windows.simps) simp
    have IH: "concat (map (\<lambda>w. [fst w..<Suc (snd w)]) (windows B cnt (batchStart + B))) = [batchStart + B..<Suc cnt]"
      using 1 le by simp
    show ?thesis
    proof (cases "batchStart + B - 1 \<le> cnt")
      case True
      then have m: "Suc (min (batchStart + B - 1) cnt) = batchStart + B"
        using \<open>0 < B\<close> by simp
      have "Suc cnt = (batchStart + B) + (Suc cnt - (batchStart + B))"
        using True \<open>0 < B\<close> by simp
      then have "[batchStart..<Suc cnt] = [batchStart..<batchStart + B] @ [batchStart + B..<Suc cnt]"
        using upt_add_eq_append [of batchStart "batchStart + B" "Suc cnt - (batchStart + B)"]
        by simp
      then show ?thesis
        by (simp only: w list.map concat.simps fst_conv snd_conv m IH)
    next
      case False
      then have m: "min (batchStart + B - 1) cnt = cnt" by simp
      have "[batchStart + B..<Suc cnt] = []" using False by simp
      then show ?thesis
        by (simp only: w list.map concat.simps fst_conv snd_conv m IH append_Nil2)
    qed
  qed
qed

lemma fold_window_step_fst:
  "fst (fold (window_step rnd cnt onP onB) ws acc) =
     fst acc @ map (generateCustomer rnd) (concat (map (\<lambda>w. [fst w..<Suc (snd w)]) ws))"
  by (induction ws arbitrary: acc) (simp_all add: window_step_def Let_def del: upt_Suc)



lemma fold_window_step_log:
  "snd (fold (window_step rnd cnt log_progress log_batch) ws acc) =
     snd acc @ concat (map (\<lambda>w. [Progress (snd w) cnt, BatchReady (map (generateCustomer rnd) [fst w..<Suc (snd w)])]) ws)"
  by (induction ws arbitrary: acc) (simp_all add: window_step_def Let_def log_progress_def log_batch_def call1_def call2_def del: upt_Suc)


lemma reported_windows:
  "reported (concat (map (\<lambda>w. [Progress (snd w) cnt, BatchReady (f w)]) ws)) = map (\<lambda>w. (snd w, cnt)) ws"
  by (induction ws) auto

lemma windows_Cons:
  "0 < B \<Longrightarrow> batchStart \<le> cnt \<Longrightarrow> windows B cnt batchStart =
        (batchStart, min (batchStart + B - 1) cnt) # windows B cnt (batchStart + B)"
  by (subst windows.simps) simp

lemma windows_Nil: "\<not> batchStart \<le> cnt \<Longrightarrow> windows B cnt batchStart = []"
  by (subst windows.simps) simp

lemma windows_Nil_iff: "0 < B \<Longrightarrow> windows B cnt batchStart = [] \<longleftrightarrow> \<not> batchStart \<le> cnt"
  by (subst windows.simps) simp



lemma windows_last:
  "0 < B \<Longrightarrow> batchStart \<le> cnt \<Longrightarrow>
     snd (last (windows B cnt batchStart)) = cnt \<and>
     (\<not> B dvd (Suc cnt - batchStart) \<longrightarrow>
        Suc (snd (last (windows B cnt batchStart))) - fst (last (windows B cnt batchStart))
          = (Suc cnt - batchStart) mod B)"
proof (induction B cnt batchStart rule: windows.induct)
  case (1 B cnt batchStart)
  show ?case
  proof (cases "batchStart + B \<le> cnt")
    case True
    then have ne: "windows B cnt (batchStart + B) \<noteq> []" using 1 by (simp add: windows_Nil_iff)
    have l: "last (windows B cnt batchStart) = last (windows B cnt (batchStart + B))"
      using 1(2,3) ne by (simp add: windows_Cons)
    have d: "Suc cnt - batchStart = (Suc cnt - (batchStart + B)) + B" using True by simp
    have "B dvd (Suc cnt - batchStart) \<longleftrightarrow> B dvd (Suc cnt - (batchStart + B))"
      by (subst d) simp
    moreover have "(Suc cnt - batchStart) mod B = (Suc cnt - (batchStart + B)) mod B"
      by (subst d) simp
    moreover have "snd (last (windows B cnt (batchStart + B))) = cnt \<and>
       (\<not> B dvd (Suc cnt - (batchStart + B)) \<longrightarrow>
          Suc (snd (last (windows B cnt (batchStart + B)))) - fst (last (windows B cnt (batchStart + B)))
            = (Suc cnt - (batchStart + B)) mod B)"
      using 1 True by auto
    ultimately show ?thesis unfolding l by auto
  next
    case False
    then have "windows B cnt (batchStart + B) = []" by (simp add: windows_Nil)
    then have l: "windows B cnt batchStart = [(batchStart, cnt)]"
      using 1(2,3) False by (simp add: windows_Cons)
    have "Suc cnt - batchStart \<le> B" using False by simp
    then have "\<not> B dvd (Suc cnt - batchStart) \<Longrightarrow> (Suc cnt - batchStart) mod B = Suc cnt - batchStart"
      by (cases "Suc cnt - batchStart = B") auto
    then show ?thesis by (auto simp: l)
  qed
qed

lemma batch_count: "0 < (B::nat) \<Longrightarrow> batch * B < T \<longleftrightarrow> batch < (T + B - 1) div B"
proof
  assume B: "0 < B" and lt: "batch * B < T"
  then have "batch * B + B \<le> T + B - 1" by arith
  then have "(batch + 1) * B \<le> T + B - 1" by (simp add: algebra_simps)
  then have "batch + 1 \<le> (T + B - 1) div B" using B by (simp add: less_eq_div_iff_mult_less_eq)
  then show "batch < (T + B - 1) div B" by simp
next
  assume B: "0 < B" and lt: "batch < (T + B - 1) div B"
  then have "batch + 1 \<le> (T + B - 1) div B" by simp
  then have "(batch + 1) * B \<le> T + B - 1" using B by (simp add: less_eq_div_iff_mult_less_eq)
  then show "batch * B < T" using B by (simp add: algebra_simps)
qed

lemma populate_batches_run:
  "0 < B \<Longrightarrow> n = (T + B - 1) div B - batch \<Longrightarrow>
     populate_batches rnd txn B T onP onB batch st = Some (populate_run rnd txn B T onP onB n batch st)"
proof (induction n arbitrary: batch st)
  case 0
  then have "\<not> batch * B < T" by (simp add: batch_count)
  then show ?case by (subst populate_batches.simps) simp
next
  case (Suc n)
  then have lt: "batch * B < T" by (simp add: batch_count)
  have n: "n = (T + B - 1) div B - Suc batch" using Suc.prems by simp
  show ?case
    using lt Suc.IH [OF Suc.prems(1) n]
    by (subst populate_batches.simps) (simp add: batch_records_def Let_def split: sum.splits)
qed

lemma populate_run_isl:
  "isl (fst (populate_run rnd txn B T onP onB n batch st)) \<longleftrightarrow>
     (\<exists>k. batch \<le> k \<and> k < batch + n \<and> txn k \<noteq> Commit)"
proof (induction n arbitrary: batch st)
  case 0
  show ?case by simp
next
  case (Suc n)
  have u: "(\<exists>k. batch \<le> k \<and> k < batch + Suc n \<and> txn k \<noteq> Commit) \<longleftrightarrow>
           txn batch \<noteq> Commit \<or> (\<exists>k. Suc batch \<le> k \<and> k < Suc batch + n \<and> txn k \<noteq> Commit)"
    (is "?L \<longleftrightarrow> ?R")
  proof
    assume ?L
    then obtain k where k: "batch \<le> k" "k < batch + Suc n" "txn k \<noteq> Commit" by blast
    show ?R
    proof (cases "k = batch")
      case True
      with k show ?thesis by simp
    next
      case False
      with k have "Suc batch \<le> k \<and> k < Suc batch + n" by simp
      with k show ?thesis by blast
    qed
  next
    assume ?R
    then show ?L
    proof
      assume "txn batch \<noteq> Commit"
      then show ?L by (intro exI [of _ batch]) simp
    next
      assume "\<exists>k. Suc batch \<le> k \<and> k < Suc batch + n \<and> txn k \<noteq> Commit"
      then obtain k where "Suc batch \<le> k" "k < Suc batch + n" "txn k \<noteq> Commit" by blast
      then show ?L by (intro exI [of _ k]) simp
    qed
  qed
  show ?case
    unfolding u by (cases "txn batch") (simp_all add: write_batch_def Suc.IH)
qed





lemma generate_batches_log:
  assumes "0 < B"
  shows "generate_batches rnd B N log_progress log_batch 1 ([], []) =
           Some (map (generateCustomer rnd) [1..<Suc N],
                 concat (map (\<lambda>w. [Progress (snd w) N,
                                     BatchReady (map (generateCustomer rnd) [fst w..<Suc (snd w)])])
                           (windows B N 1)))"
proof -
  let ?r = "fold (window_step rnd N log_progress log_batch) (windows B N 1) ([], [])"
  have "generate_batches rnd B N log_progress log_batch 1 ([], []) = Some ?r"
    using assms by (rule generate_batches_windows)
  moreover have "fst ?r = map (generateCustomer rnd) [1..<Suc N]"
    using windows_concat [OF assms, of N 1] by (simp only: fold_window_step_fst) simp
  moreover have "snd ?r = concat (map (\<lambda>w. [Progress (snd w) N,
                                     BatchReady (map (generateCustomer rnd) [fst w..<Suc (snd w)])])
                           (windows B N 1))"
    by (simp only: fold_window_step_log) simp
  ultimately show ?thesis by (metis prod.collapse)
qed



lemma fold_generate_step_log:
  "snd (fold (generate_step rnd cnt log_progress) is (cs, tr)) =
     tr @ map (\<lambda>i. Progress i cnt) (filter (\<lambda>i. i mod 10000 = 0) is)"
  by (induction "is" arbitrary: cs tr)
     (simp_all add: generate_step_def log_progress_def call2_def)

lemma reported_map_Progress: "reported (map (\<lambda>i. Progress i cnt) xs) = map (\<lambda>i. (i, cnt)) xs"
  by (induction xs) simp_all

lemma generateCustomersInMemory_v1_reported:
  "reported (snd (generateCustomersInMemory_v1 rnd cnt log_progress [])) =
     map (\<lambda>i. (i, cnt)) (filter (\<lambda>i. i mod 10000 = 0) [1..<Suc cnt])"
  unfolding generateCustomersInMemory_v1_def
  by (simp only: fold_generate_step_log append_Nil reported_map_Progress)

lemma multiples_upto_15000: "filter (\<lambda>i. i mod 10000 = 0) [1..<Suc 15000] = [10000::nat]"
proof -
  have "[1..<10000 + 5001] = [1..<10000] @ [10000..<10000 + 5001]"
    by (rule upt_add_eq_append) simp
  moreover have "[10000..<10000 + 5001] = 10000 # [Suc 10000..<10000 + 5001]"
    by (rule upt_conv_Cons) simp
  moreover have "(10000::nat) + 5001 = Suc 15000" by simp
  ultimately have s: "[1..<Suc 15000] = [1..<10000] @ [10000] @ [Suc 10000..<Suc 15000]"
    by simp
  have a: "filter (\<lambda>i. i mod 10000 = 0) [1..<10000] = ([]::nat list)"
  proof (rule filter_False, rule ballI)
    fix x :: nat assume "x \<in> set [1..<10000]"
    then have "1 \<le> x" "x < 10000" by (simp_all only: set_upt atLeastLessThan_iff)
    then show "\<not> x mod 10000 = 0" by simp
  qed
  have b: "filter (\<lambda>i. i mod 10000 = 0) [Suc 10000..<Suc 15000] = ([]::nat list)"
  proof (rule filter_False, rule ballI)
    fix x :: nat assume "x \<in> set [Suc 10000..<Suc 15000]"
    then have x: "Suc 10000 \<le> x" "x < Suc 15000" by (simp_all only: set_upt atLeastLessThan_iff)
    then have "x mod 10000 = (x - 10000) mod 10000" by (intro le_mod_geq) simp
    also have "\<dots> = x - 10000" using x by (intro mod_less) simp
    finally show "\<not> x mod 10000 = 0" using x by simp
  qed
  have c: "filter (\<lambda>i. i mod 10000 = 0) [10000::nat] = [10000]" by simp
  show ?thesis unfolding s by (simp only: filter_append a b c append_Nil append_Nil2)
qed

lemma populate_run_session:
  "\<exists>x. snd (snd (snd (populate_run rnd txn B T setProgress None n batch (store, p, u))))
         = u\<lparr> progress := x \<rparr>"
proof (induction n arbitrary: batch store p u)
  case 0
  have "u = u\<lparr> progress := progress u \<rparr>" by simp
  then show ?case by (simp only: populate_run.simps snd_conv) blast
next
  case (Suc n)
  show ?case
  proof (cases "write_batch (txn batch) store (batch_records rnd B batch)")
    case (Inl err)
    have "u = u\<lparr> progress := progress u \<rparr>" by simp
    with Inl show ?thesis by (simp only: populate_run.simps fst_conv snd_conv sum.case) blast
  next
    case (Inr store')
    from Suc.IH [of "Suc batch" store' "p + B" "u\<lparr> progress := percent (p + B) T \<rparr>"]
    show ?thesis using Inr by (simp add: setProgress_def call1_def call2_def)
  qed
qed

lemma generate_v1_session:
  "\<exists>x. snd (fold (generate_step rnd cnt setProgress) is (cs, u)) = u\<lparr> progress := x \<rparr>"
proof (induction "is" arbitrary: cs u)
  case Nil
  have "u = u\<lparr> progress := progress u \<rparr>" by simp
  then show ?case by (simp only: fold_simps snd_conv) blast
next
  case (Cons i "is")
  show ?case
  proof (cases "i mod 10000 = 0")
    case True
    from Cons.IH [of "cs @ [generateCustomer rnd i]" "u\<lparr> progress := percent i cnt \<rparr>"]
    show ?thesis using True by (simp add: generate_step_def setProgress_def call2_def)
  next
    case False
    from Cons.IH [of "cs @ [generateCustomer rnd i]" u]
    show ?thesis using False by (simp add: generate_step_def)
  qed
qed
lemma generateCustomersInMemory_v1_length:
  "length (fst (generateCustomersInMemory_v1 rnd cnt onProgress u)) = cnt"
  by (simp add: generateCustomersInMemory_v1_fst del: upt_Suc)

lemma generateCustomersInMemory_v1_session:
  "\<exists>x. snd (generateCustomersInMemory_v1 rnd cnt setProgress u) = u\<lparr> progress := x \<rparr>"
  unfolding generateCustomersInMemory_v1_def by (rule generate_v1_session)

lemma generateInMemory_throws:
  "generationThrows e (generations s) = Some m \<Longrightarrow>
     generateInMemory e s = (Inl m, s\<lparr> generations := Suc (generations s) \<rparr>)"
  by (simp add: generateInMemory_def Let_def)

lemma generateInMemory_returns:
  assumes "generationThrows e (generations s) = None"
  shows "\<exists>cs x. generateInMemory e s =
           (Inr cs, s\<lparr> generations := Suc (generations s), progress := x \<rparr>) \<and>
           length cs = 1000000"
proof -
  define s' where "s' = s\<lparr> generations := Suc (generations s) \<rparr>"
  define g where "g = generateCustomersInMemory_v1 (memoryDraws e (generations s)) 1000000 setProgress s'"
  have l: "length (fst g) = 1000000"
    unfolding g_def by (rule generateCustomersInMemory_v1_length)
  obtain x where x: "snd g = s'\<lparr> progress := x \<rparr>"
    unfolding g_def using generateCustomersInMemory_v1_session by blast
  have "generateInMemory e s = (Inr (fst g), snd g)"
    using assms unfolding generateInMemory_def Let_def g_def s'_def
    by (simp only: option.case case_prod_beta)
  then have "generateInMemory e s = (Inr (fst g), s\<lparr> generations := Suc (generations s), progress := x \<rparr>)"
    unfolding x s'_def .
  with l show ?thesis by blast
qed

lemma populate_session:
  "\<exists>r x st. populate e s = Some (r, s\<lparr> populates := Suc (populates s), progress := x, idb := st \<rparr>) \<and>
              (isl r \<longleftrightarrow> (\<exists>k<100. writeOutcome e k \<noteq> Commit))"
proof -
  define u where "u = s\<lparr> populates := Suc (populates s) \<rparr>"
  define R where "R = populate_run (populateDraws e) (writeOutcome e) 10000 1000000 setProgress None 100 0
              (idb s, 0, u)"
  have n: "(100::nat) = (1000000 + 10000 - 1) div 10000 - 0" by simp
  have run: "populateDatabase_v1 (populateDraws e) (writeOutcome e) (idb s) setProgress u = Some R"
    unfolding populateDatabase_v1_def R_def by (rule populate_batches_run [OF _ n]) simp
  obtain x where x: "snd (snd (snd R)) = u\<lparr> progress := x \<rparr>"
    unfolding R_def using populate_run_session by blast
  have i: "isl (fst R) \<longleftrightarrow> (\<exists>k<100. writeOutcome e k \<noteq> Commit)"
    unfolding R_def by (simp only: populate_run_isl) simp
  obtain r st p where R: "R = (r, st, p, u\<lparr> progress := x \<rparr>)"
    using x by (metis prod.collapse)
  have "populate e s = Some (r, u\<lparr> progress := x, idb := st \<rparr>)"
    unfolding populate_def u_def [symmetric] run R by simp
  with i R show ?thesis unfolding u_def by auto
qed

lemma initData_catch_props:
  "generations (initData_catch e err s0) = Suc (generations s0) \<and>
   useMemoryStorage (initData_catch e err s0) \<and> \<not> loading (initData_catch e err s0) \<and>
   opens (initData_catch e err s0) = opens s0 \<and>
   checks (initData_catch e err s0) = checks s0 \<and>
   populates (initData_catch e err s0) = populates s0 \<and>
   loads (initData_catch e err s0) = loads s0 \<and>
   (generationThrows e (generations s0) = None \<longrightarrow>
      error (initData_catch e err s0) = None \<and> length (customers (initData_catch e err s0)) = 1000000) \<and>
   (generationThrows e (generations s0) \<noteq> None \<longrightarrow>
      error (initData_catch e err s0) = Some ''Failed to generate customer data'' \<and>
      customers (initData_catch e err s0) = customers s0)"
proof (cases "generationThrows e (generations s0)")
  case None
  define s2 where "s2 = s0\<lparr> error := Some (or_default err ''Failed to initialize database''),
                          useMemoryStorage := True \<rparr>"
  have "generationThrows e (generations s2) = None" using None by (simp add: s2_def)
  from generateInMemory_returns [OF this]
  obtain cs x where g: "generateInMemory e s2 =
      (Inr cs, s2\<lparr> generations := Suc (generations s2), progress := x \<rparr>)"
    and l: "length cs = 1000000" by blast
  have "initData_catch e err s0 =
          s2\<lparr> generations := Suc (generations s2), progress := x, customers := cs, error := None,
              loading := False \<rparr>"
    unfolding initData_catch_def Let_def s2_def [symmetric] g by simp
  then show ?thesis using None l by (simp add: s2_def)
next
  case (Some m)
  define s2 where "s2 = s0\<lparr> error := Some (or_default err ''Failed to initialize database''),
                          useMemoryStorage := True \<rparr>"
  have "generationThrows e (generations s2) = Some m" using Some by (simp add: s2_def)
  from generateInMemory_throws [OF this]
  have g: "generateInMemory e s2 = (Inl m, s2\<lparr> generations := Suc (generations s2) \<rparr>)" .
  have "initData_catch e err s0 =
          s2\<lparr> generations := Suc (generations s2),
              error := Some ''Failed to generate customer data'', loading := False \<rparr>"
    unfolding initData_catch_def Let_def s2_def [symmetric] g by simp
  then show ?thesis using Some by (simp add: s2_def)
qed

lemma initData_try_memory:
  assumes "\<not> isIndexedDBAvailable e"
  shows "\<exists>r s'. initData_try e (initial_session e) = Some (r, s') \<and>
           opens s' = 0 \<and> useMemoryStorage s' \<and> generations s' = 1 \<and>
           (isl r \<longleftrightarrow> generationThrows e 0 \<noteq> None) \<and>
           (\<not> isl r \<longrightarrow> \<not> loading s' \<and> error s' = None \<and> length (customers s') = 1000000)"
proof (cases "generationThrows e 0")
  case None
  define s2 where "s2 = (initial_session e)\<lparr> error := None, useMemoryStorage := True \<rparr>"
  have "generationThrows e (generations s2) = None"
    using None by (simp add: s2_def initial_session_def)
  from generateInMemory_returns [OF this]
  obtain cs x where g: "generateInMemory e s2 =
      (Inr cs, s2\<lparr> generations := Suc (generations s2), progress := x \<rparr>)"
    and l: "length cs = 1000000" by blast
  have "initData_try e (initial_session e) =
          Some (Inr (), s2\<lparr> generations := Suc (generations s2), progress := x, customers := cs,
                            loading := False \<rparr>)"
    using assms unfolding initData_try_def Let_def s2_def [symmetric] g by simp
  then show ?thesis using None l by (simp add: s2_def initial_session_def)
next
  case (Some m)
  define s2 where "s2 = (initial_session e)\<lparr> error := None, useMemoryStorage := True \<rparr>"
  have "generationThrows e (generations s2) = Some m"
    using Some by (simp add: s2_def initial_session_def)
  from generateInMemory_throws [OF this]
  have g: "generateInMemory e s2 = (Inl m, s2\<lparr> generations := Suc (generations s2) \<rparr>)" .
  have "initData_try e (initial_session e) =
          Some (Inl m, s2\<lparr> generations := Suc (generations s2) \<rparr>)"
    using assms unfolding initData_try_def Let_def s2_def [symmetric] g by simp
  then show ?thesis using Some by (simp add: s2_def initial_session_def)
qed

lemma loadCustomers_cases:
  "loadCustomers e (Some d) s =
     (case getAllFails e of
        Some f \<Rightarrow> (Inl (failure_message ''Load error: '' f), s\<lparr> loads := Suc (loads s) \<rparr>)
      | None \<Rightarrow> (Inr (), s\<lparr> loads := Suc (loads s), customers := sort_key cust_id (idb s) \<rparr>))"
  by (simp add: loadCustomers_def Let_def split: option.splits)

lemma initData_try_persistent:
  assumes "isIndexedDBAvailable e"
  shows "\<exists>r s'. initData_try e (initial_session e) = Some (r, s') \<and>
           (isl r \<longleftrightarrow> persistent_step_fails e) \<and>
           generations s' = 0 \<and> opens s' = 1 \<and> \<not> useMemoryStorage s' \<and> error s' = None \<and>
           (isl r \<longrightarrow> customers s' = []) \<and> (\<not> isl r \<longrightarrow> \<not> loading s')"
proof (cases "openFails e")
  case (Some f)
  then show ?thesis using assms
    by (simp add: initData_try_def Let_def initializeDatabase_def persistent_step_fails_def
          initial_session_def)
next
  case None
  note op = this
  show ?thesis
  proof (cases "countFails e")
    case (Some f)
    then show ?thesis using assms op
      by (simp add: initData_try_def Let_def initializeDatabase_def isDatabasePopulated_def
            persistent_step_fails_def initial_session_def)
  next
    case None
    note ct = this
    show ?thesis
    proof (cases "1000000 \<le> length (storeAtOpen e)")
      case True
      then show ?thesis using assms op ct
        by (cases "getAllFails e")
           (simp_all add: initData_try_def Let_def initializeDatabase_def isDatabasePopulated_def
              persistent_step_fails_def initial_session_def loadCustomers_cases)
    next
      case False
      define s3 where "s3 = (initial_session e)\<lparr> error := None, opens := Suc 0,
                              db := Some CustomersDB, checks := Suc 0 \<rparr>"
      from populate_session [of e s3]
      obtain r x st where p: "populate e s3 =
            Some (r, s3\<lparr> populates := Suc (populates s3), progress := x, idb := st \<rparr>)"
        and i: "isl r \<longleftrightarrow> (\<exists>k<100. writeOutcome e k \<noteq> Commit)" by blast
      define s4 where "s4 = s3\<lparr> populates := Suc (populates s3), progress := x, idb := st \<rparr>"
      have pre: "initData_try e (initial_session e) =
            (case populate e s3 of
               None \<Rightarrow> None
             | Some (Inl err, s4) \<Rightarrow> Some (Inl err, s4)
             | Some (Inr v, s4) \<Rightarrow>
                 (case loadCustomers e (Some CustomersDB) s4 of
                    (Inl err, s5) \<Rightarrow> Some (Inl err, s5)
                  | (Inr w, s5) \<Rightarrow> Some (Inr (), s5\<lparr> loading := False \<rparr>)))"
        using assms op ct False
        by (simp add: initData_try_def Let_def initializeDatabase_def isDatabasePopulated_def
              initial_session_def s3_def)
      show ?thesis
      proof (cases r)
        case (Inl err)
        with i have "\<exists>k<100. writeOutcome e k \<noteq> Commit" by simp
        with False have f: "persistent_step_fails e" by (simp add: persistent_step_fails_def)
        have "initData_try e (initial_session e) = Some (Inl err, s4)"
          unfolding pre p Inl s4_def by simp
        then show ?thesis using f by (simp add: s4_def s3_def initial_session_def)
      next
        case (Inr v)
        with i have "\<not> (\<exists>k<100. writeOutcome e k \<noteq> Commit)" by simp
        then have f: "persistent_step_fails e \<longleftrightarrow> getAllFails e \<noteq> None"
          using op ct by (auto simp: persistent_step_fails_def)
        have t: "initData_try e (initial_session e) =
                 (case loadCustomers e (Some CustomersDB) s4 of
                    (Inl err, s5) \<Rightarrow> Some (Inl err, s5)
                  | (Inr w, s5) \<Rightarrow> Some (Inr (), s5\<lparr> loading := False \<rparr>))"
          unfolding pre p Inr s4_def by simp
        show ?thesis
        proof (cases "getAllFails e")
          case None
          then show ?thesis using f unfolding t
            by (simp add: loadCustomers_cases s4_def s3_def initial_session_def)
        next
          case (Some g)
          then show ?thesis using f unfolding t
            by (simp add: loadCustomers_cases s4_def s3_def initial_session_def)
        qed
      qed
    qed
  qed
qed

lemma generate_trace_final_progress:
  assumes "0 < B" and "1 \<le> N"
  shows "\<exists>tr. generate_trace rnd B N = Some tr \<and> reported tr \<noteq> [] \<and> last (reported tr) = (N, N)"
proof -
  define tr where "tr = concat (map (\<lambda>w. [Progress (snd w) N,
      BatchReady (map (generateCustomer rnd) [fst w..<Suc (snd w)])]) (windows B N 1))"
  have t: "generate_trace rnd B N = Some tr"
    unfolding generate_trace_def tr_def by (simp only: generate_batches_log [OF assms(1)]) simp
  have r: "reported tr = map (\<lambda>w. (snd w, N)) (windows B N 1)"
    unfolding tr_def by (rule reported_windows)
  have ne: "windows B N 1 \<noteq> []" using assms by (simp add: windows_Nil_iff)
  have "last (reported tr) = (snd (last (windows B N 1)), N)"
    unfolding r using ne by (simp add: last_map)
  also have "\<dots> = (N, N)" using windows_last [OF assms] by simp
  finally show ?thesis using t r ne by simp
qed

section \<open>Filter engine\<close>

text \<open>
  C4, as the specification states it, fails: a record whose phone string holds upper-case
  letters is matched by the source, which folds the phone string too, and not by the
  filter of the specification.
\<close>

theorem filter_phone_folded_counterexample:
  "filteredCustomers [vanity_customer] (Some ''call'') \<noteq> spec_filter [vanity_customer] ''call''"
  by code_simp

text \<open>
  C4, amended: for a non-empty query the filter returns, in the order of the working set,
  exactly the records where the case-folded query is a substring of the case-folded
  name, of the case-folded email or of the case-folded phone string. On a working set
  whose phone strings have no upper-case letter this is the filter of the specification.
\<close>

theorem filter_folds_all_fields:
  assumes "q \<noteq> []"
  shows "filteredCustomers W (Some q) =
           filter (\<lambda>c. sublist (toLowerCase q) (toLowerCase (name c)) \<or>
                        sublist (toLowerCase q) (toLowerCase (email c)) \<or>
                        sublist (toLowerCase q) (toLowerCase (phone c))) W
         \<and> subseq (filteredCustomers W (Some q)) W
         \<and> ((\<forall>c \<in> set W. toLowerCase (phone c) = phone c) \<longrightarrow>
              filteredCustomers W (Some q) = spec_filter W q)"
proof -
  have f: "filteredCustomers W (Some q) = filter (matches (toLowerCase q)) W"
    using assms by (simp add: filteredCustomers_def)
  have "filter (matches (toLowerCase q)) W =
          filter (\<lambda>c. sublist (toLowerCase q) (toLowerCase (name c)) \<or>
                       sublist (toLowerCase q) (toLowerCase (email c)) \<or>
                       sublist (toLowerCase q) (toLowerCase (phone c))) W"
    by (rule filter_cong [OF refl]) (simp add: matches_def includes_str_sublist)
  moreover have "subseq (filter (matches (toLowerCase q)) W) W"
    by simp
  moreover have "(\<forall>c \<in> set W. toLowerCase (phone c) = phone c) \<longrightarrow>
          filter (matches (toLowerCase q)) W = spec_filter W q"
    unfolding spec_filter_def
    by (intro impI filter_cong [OF refl]) (simp add: matches_def spec_matches_def)
  ultimately show ?thesis unfolding f by blast
qed

theorem filter_folds_all_fields_witness:
  "''SMITH'' \<noteq> [] \<and> toLowerCase (phone plain_customer) = phone plain_customer
     \<and> filteredCustomers [plain_customer, vanity_customer] (Some ''SMITH'') = [plain_customer, vanity_customer]
     \<and> filteredCustomers [plain_customer] (Some ''SMITH'') = spec_filter [plain_customer] ''SMITH''
     \<and> subseq (filteredCustomers [plain_customer] (Some ''SMITH'')) [plain_customer]"
proof -
  have q: "''SMITH'' \<noteq> []" by simp
  have p: "toLowerCase (phone plain_customer) = phone plain_customer"
    by code_simp
  have v: "filter (\<lambda>c. sublist (toLowerCase ''SMITH'') (toLowerCase (name c)) \<or>
                        sublist (toLowerCase ''SMITH'') (toLowerCase (email c)) \<or>
                        sublist (toLowerCase ''SMITH'') (toLowerCase (phone c)))
             [plain_customer, vanity_customer] = [plain_customer, vanity_customer]"
    unfolding includes_str_sublist [symmetric] by code_simp
  have b: "\<forall>c \<in> set [plain_customer]. toLowerCase (phone c) = phone c"
    using p by simp
  note one = filter_folds_all_fields [OF q, of "[plain_customer]"]
  note two = filter_folds_all_fields [OF q, of "[plain_customer, vanity_customer]"]
  have e: "filteredCustomers [plain_customer] (Some ''SMITH'') = spec_filter [plain_customer] ''SMITH''"
    using one b by blast
  have s: "subseq (filteredCustomers [plain_customer] (Some ''SMITH'')) [plain_customer]"
    using one by blast
  have w: "filteredCustomers [plain_customer, vanity_customer] (Some ''SMITH'')
             = [plain_customer, vanity_customer]"
    using conjunct1 [OF two] v by (rule trans)
  show ?thesis using q p e s w by blast
qed

text \<open>
  C9: with an empty or an absent query the filter returns the working set itself. On
  values the result equals the working set; on the store of arrays the result is the
  address that was passed in, and the store is unchanged.
\<close>

theorem filter_empty_query_identity:
  "filteredCustomers W None = W \<and> filteredCustomers W (Some []) = W \<and>
   filteredCustomers_ref h a None = (h, a) \<and> filteredCustomers_ref h a (Some []) = (h, a)"
  by (simp add: filteredCustomers_ref_def falsy_def filteredCustomers_def)

text \<open>
  C10: the result of the filter depends on the case-folded query only, in all three
  branches, the phone branch included.
\<close>

theorem filter_query_case_insensitive:
  "filteredCustomers W (Some (toLowerCase q)) = filteredCustomers W (Some q)"
  by (simp add: filteredCustomers_def toLowerCase_idem toLowerCase_Nil_iff)

section \<open>Sort engine\<close>


text \<open>
  C8: sorting by \<open>id\<close>, ascending, a working set generated with the identifiers
  \<open>1..N\<close> gives the records in the order \<open>1, 2, ..., N\<close>; this holds for the working
  set of either generator.
\<close>

theorem sort_by_id_generated_roundtrip:
  "map cust_id (sortedCustomers parse \<lparr> column = ''id'', direction = ''asc'' \<rparr>
      (fst (generateCustomersInMemory_v1 rnd N onProgress u))) = [1..<Suc N] \<and>
   map_option (\<lambda>r. map cust_id (sortedCustomers parse \<lparr> column = ''id'', direction = ''asc'' \<rparr> (fst r)))
      (generateCustomersInMemory rnd N onProgress onBatchComplete u) = Some [1..<Suc N]"
proof -
  have "fst (fold (window_step rnd N onProgress onBatchComplete) (windows 5000 N 1) ([], u))
          = map (generateCustomer rnd) [1..<Suc N]"
    using windows_concat [of 5000 N 1] by (simp only: fold_window_step_fst) simp
  moreover have "generateCustomersInMemory rnd N onProgress onBatchComplete u =
          Some (fold (window_step rnd N onProgress onBatchComplete) (windows 5000 N 1) ([], u))"
    unfolding generateCustomersInMemory_def by (rule generate_batches_windows) simp
  ultimately show ?thesis
    by (simp add: generateCustomersInMemory_v1_fst sort_by_id_generated comp_def
          cust_id_generateCustomer del: upt_Suc)
qed

section \<open>Batch producers\<close>




text \<open>
  C2 fails on the first in-memory generator: it reports progress only when the number
  of generated records is a multiple of 10000, so a run with \<open>N = 15000\<close> reports
  \<open>(10000, 15000)\<close> once and nothing after it; the last reported count is \<open>10000\<close>, and
  the percentage derived from it is 66.
\<close>

theorem progress_stops_short_of_total:
  "reported (snd (generateCustomersInMemory_v1 rnd 15000 log_progress [])) = [(10000, 15000)] \<and>
   percent 10000 15000 = 66"
  by (simp only: generateCustomersInMemory_v1_reported multiples_upto_15000)
     (simp add: percent_def)

section \<open>Progressive load orchestrator\<close>

text \<open>
  C3: when the capability probe returns false the session ends with the store never
  opened, in memory mode and no longer loading; unless a generation is interrupted by the
  host, no error is recorded, and whenever no error is recorded the working set holds
  exactly 1000000 records.
\<close>

theorem memory_path_when_probe_fails:
  assumes "\<not> isIndexedDBAvailable e"
  shows "\<exists>s. initData e (initial_session e) = Some s \<and>
           opens s = 0 \<and> useMemoryStorage s \<and> \<not> loading s \<and>
           (generationThrows e 0 = None \<longrightarrow> error s = None) \<and>
           (error s = None \<longrightarrow> length (customers s) = 1000000)"
proof -
  from initData_try_memory [OF assms]
  obtain r s' where t: "initData_try e (initial_session e) = Some (r, s')"
    and o: "opens s' = 0" and g: "generations s' = 1"
    and i: "isl r \<longleftrightarrow> generationThrows e 0 \<noteq> None"
    and ok: "\<not> isl r \<longrightarrow> \<not> loading s' \<and> error s' = None \<and> length (customers s') = 1000000"
    and m: "useMemoryStorage s'"
    by blast
  show ?thesis
  proof (cases r)
    case (Inr v)
    then have "initData e (initial_session e) = Some s'" by (simp add: initData_def t)
    with Inr o m ok i show ?thesis by simp
  next
    case (Inl err)
    then have d: "initData e (initial_session e) = Some (initData_catch e err s')"
      by (simp add: initData_def t)
    note c = initData_catch_props [of e err s']
    have "error (initData_catch e err s') = None \<longrightarrow> length (customers (initData_catch e err s')) = 1000000"
      using c by (cases "generationThrows e (generations s')") auto
    with d c o i Inl show ?thesis by auto
  qed
qed

theorem memory_path_when_probe_fails_witness:
  "\<not> isIndexedDBAvailable no_storage_env \<and>
   (\<exists>s. initData no_storage_env (initial_session no_storage_env) = Some s \<and>
      opens s = 0 \<and> useMemoryStorage s \<and> \<not> loading s \<and> error s = None \<and>
      length (customers s) = 1000000)"
proof -
  have p: "\<not> isIndexedDBAvailable no_storage_env"
    by (simp add: isIndexedDBAvailable_def no_storage_env_def quiet_env_def)
  have g: "generationThrows no_storage_env 0 = None"
    by (simp add: no_storage_env_def quiet_env_def no_throw_def)
  from memory_path_when_probe_fails [OF p] g p show ?thesis by auto
qed

text \<open>
  C6: when the store opens and the population check reports it populated, the populate
  operation is never called and the whole collection is retrieved exactly once; when
  that retrieval succeeds, its result is the working set and the session is not in
  memory mode.
\<close>

theorem loading_path_when_populated:
  assumes "fst (initializeDatabase e (initial_session e)) = Inr database"
    and "fst (isDatabasePopulated e (initial_session e)) = Inr True"
  shows "\<exists>s. initData e (initial_session e) = Some s \<and>
           populates s = 0 \<and> loads s = 1 \<and>
           (getAllFails e = None \<longrightarrow>
              customers s = sort_key cust_id (storeAtOpen e) \<and> generations s = 0 \<and>
              \<not> useMemoryStorage s \<and> error s = None \<and> \<not> loading s)"
proof -
  have av: "isIndexedDBAvailable e" and op: "openFails e = None"
    using assms(1) by (auto simp: initializeDatabase_def Let_def split: if_splits option.splits)
  have ct: "countFails e = None" and full: "1000000 \<le> length (storeAtOpen e)"
    using assms(2)
    by (auto simp: isDatabasePopulated_def Let_def initial_session_def split: option.splits)
  show ?thesis
  proof (cases "getAllFails e")
    case None
    then show ?thesis using av op ct full
      by (simp add: initData_def initData_try_def Let_def initializeDatabase_def
            isDatabasePopulated_def initial_session_def loadCustomers_cases)
  next
    case (Some f)
    define s' where "s' = (initial_session e)\<lparr> error := None, opens := Suc 0,
                              db := Some CustomersDB, checks := Suc 0, loads := Suc 0 \<rparr>"
    have "initData_try e (initial_session e) = Some (Inl (failure_message ''Load error: '' f), s')"
      using Some av op ct full
      by (simp add: initData_try_def Let_def initializeDatabase_def
            isDatabasePopulated_def initial_session_def loadCustomers_cases s'_def)
    then have "initData e (initial_session e) =
        Some (initData_catch e (failure_message ''Load error: '' f) s')"
      by (simp add: initData_def)
    moreover have "populates s' = 0" "loads s' = 1" by (simp_all add: s'_def initial_session_def)
    ultimately show ?thesis
      using Some initData_catch_props [of e "failure_message ''Load error: '' f" s'] by simp
  qed
qed

theorem loading_path_when_populated_witness:
  "fst (initializeDatabase populated_env (initial_session populated_env)) = Inr CustomersDB \<and>
   fst (isDatabasePopulated populated_env (initial_session populated_env)) = Inr True \<and>
   (\<exists>s. initData populated_env (initial_session populated_env) = Some s \<and>
      populates s = 0 \<and> loads s = 1 \<and> customers s = sort_key cust_id full_store \<and>
      generations s = 0 \<and> \<not> useMemoryStorage s)"
proof -
  have l: "length full_store = 1000000"
    by (simp only: full_store_def length_replicate)
  have a: "fst (initializeDatabase populated_env (initial_session populated_env)) = Inr CustomersDB"
    by (simp add: initializeDatabase_def Let_def isIndexedDBAvailable_def populated_env_def
          quiet_env_def)
  have b: "fst (isDatabasePopulated populated_env (initial_session populated_env)) = Inr True"
    by (simp add: isDatabasePopulated_def Let_def initial_session_def populated_env_def
          quiet_env_def l)
  have g: "getAllFails populated_env = None" "storeAtOpen populated_env = full_store"
    by (simp_all add: populated_env_def quiet_env_def)
  from loading_path_when_populated [OF a b] g a b show ?thesis by auto
qed

text \<open>
  C7: when a step of the persistent path fails (the open, the population check, the
  population or the retrieval of the collection), the in-memory generation is called
  exactly once; when it returns, no error is recorded and the list is shown; when it is
  interrupted too, the error \<open>Failed to generate customer data\<close> is recorded and the
  empty-data screen is shown. In every session, an error recorded at the end means that
  the last call of the in-memory generation was interrupted.
\<close>

theorem fallback_once_on_persistent_failure:
  "(isIndexedDBAvailable e \<longrightarrow> persistent_step_fails e \<longrightarrow>
      (\<exists>s. initData e (initial_session e) = Some s \<and>
         generations s = 1 \<and> useMemoryStorage s \<and> \<not> loading s \<and>
         (generationThrows e 0 = None \<longrightarrow>
            error s = None \<and> length (customers s) = 1000000 \<and> render s = CustomerList) \<and>
         (generationThrows e 0 \<noteq> None \<longrightarrow>
            error s = Some ''Failed to generate customer data'' \<and> render s = NoDataScreen)))
   \<and> (\<exists>s. initData e (initial_session e) = Some s \<and>
         (error s \<noteq> None \<longrightarrow>
            0 < generations s \<and> generationThrows e (generations s - 1) \<noteq> None))"
proof (intro conjI impI)
  assume av: "isIndexedDBAvailable e" and f: "persistent_step_fails e"
  from initData_try_persistent [OF av] f
  obtain r s' where t: "initData_try e (initial_session e) = Some (r, s')"
    and i: "isl r" and g: "generations s' = 0" and c: "customers s' = []"
    by blast
  from i obtain err where r: "r = Inl err" by (cases r) auto
  have d: "initData e (initial_session e) = Some (initData_catch e err s')"
    by (simp add: initData_def t r)
  note p = initData_catch_props [of e err s']
  show "\<exists>s. initData e (initial_session e) = Some s \<and>
         generations s = 1 \<and> useMemoryStorage s \<and> \<not> loading s \<and>
         (generationThrows e 0 = None \<longrightarrow>
            error s = None \<and> length (customers s) = 1000000 \<and> render s = CustomerList) \<and>
         (generationThrows e 0 \<noteq> None \<longrightarrow>
            error s = Some ''Failed to generate customer data'' \<and> render s = NoDataScreen)"
    using d p g c by (intro exI [of _ "initData_catch e err s'"]) (simp add: render_def)
next
  show "\<exists>s. initData e (initial_session e) = Some s \<and>
         (error s \<noteq> None \<longrightarrow>
            0 < generations s \<and> generationThrows e (generations s - 1) \<noteq> None)"
  proof (cases "isIndexedDBAvailable e")
    case True
    from initData_try_persistent [OF True]
    obtain r s' where t: "initData_try e (initial_session e) = Some (r, s')"
      and g: "generations s' = 0" and n: "error s' = None"
      by blast
    show ?thesis
    proof (cases r)
      case (Inr v)
      then show ?thesis using n by (simp add: initData_def t)
    next
      case (Inl err)
      then have d: "initData e (initial_session e) = Some (initData_catch e err s')"
        by (simp add: initData_def t)
      show ?thesis
        using d initData_catch_props [of e err s'] g
        by (cases "generationThrows e 0") auto
    qed
  next
    case False
    from initData_try_memory [OF False]
    obtain r s' where t: "initData_try e (initial_session e) = Some (r, s')"
      and g: "generations s' = 1"
      and ok: "\<not> isl r \<longrightarrow> \<not> loading s' \<and> error s' = None \<and> length (customers s') = 1000000"
      by blast
    show ?thesis
    proof (cases r)
      case (Inr v)
      then show ?thesis using ok by (simp add: initData_def t)
    next
      case (Inl err)
      then have d: "initData e (initial_session e) = Some (initData_catch e err s')"
        by (simp add: initData_def t)
      show ?thesis
        using d initData_catch_props [of e err s'] g
        by (cases "generationThrows e 1") auto
    qed
  qed
qed

theorem fallback_once_on_persistent_failure_witness:
  "isIndexedDBAvailable locked_env \<and> persistent_step_fails locked_env \<and>
   (\<exists>s. initData locked_env (initial_session locked_env) = Some s \<and>
      generations s = 1 \<and> useMemoryStorage s \<and> \<not> loading s \<and> error s = None \<and>
      length (customers s) = 1000000 \<and> render s = CustomerList)"
proof -
  have a: "isIndexedDBAvailable locked_env"
    by (simp add: isIndexedDBAvailable_def locked_env_def quiet_env_def)
  have f: "persistent_step_fails locked_env"
    by (simp add: persistent_step_fails_def locked_env_def quiet_env_def)
  have g: "generationThrows locked_env 0 = None"
    by (simp add: locked_env_def quiet_env_def no_throw_def)
  from fallback_once_on_persistent_failure [of locked_env] a f g show ?thesis by auto
qed

end
